theory Spec2Isabelle
  imports Main "HOL-Library.Char_ord" "HOL-Library.List_Lexorder"
begin

section \<open>Strings as the Python code uses them\<close>

text \<open>
  A document, a line and a name are Python \<open>str\<close> values; they are modelled as
  \<open>string\<close> (a list of 8-bit characters). Only the ASCII behaviour of the
  character classes is modelled: \<open>\d\<close>, \<open>\s\<close>, \<open>isalnum\<close> and
  \<open>strip\<close> treat every character above 127 as an ordinary character.
\<close>

definition startswith :: "string \<Rightarrow> string \<Rightarrow> bool" where
  "startswith s p \<longleftrightarrow> take (length p) s = p"

text \<open>\<open>sub in s\<close> for strings.\<close>

fun contains :: "string \<Rightarrow> string \<Rightarrow> bool" where
  "contains [] sub = (sub = [])"
| "contains (c # cs) sub = (startswith (c # cs) sub \<or> contains cs sub)"

text \<open>\<open>s.split(sep)\<close> with a one-character separator: never an empty list.\<close>

fun split_chr :: "char \<Rightarrow> string \<Rightarrow> string list" where
  "split_chr sep [] = [[]]"
| "split_chr sep (c # cs) =
     (if c = sep then [] # split_chr sep cs
      else (case split_chr sep cs of
              [] \<Rightarrow> [[c]]
            | w # ws \<Rightarrow> (c # w) # ws))"

definition newline :: char where
  "newline = CHR 0x0A"


definition quote :: char where
  "quote = CHR 0x22"

text \<open>The class of the regular expression \<open>.\<close>: any character except a newline.\<close>

definition notnl :: "char \<Rightarrow> bool" where
  "notnl c \<longleftrightarrow> c \<noteq> newline"

definition is_digit :: "char \<Rightarrow> bool" where
  "is_digit c \<longleftrightarrow> CHR ''0'' \<le> c \<and> c \<le> CHR ''9''"

definition is_alpha :: "char \<Rightarrow> bool" where
  "is_alpha c \<longleftrightarrow> (CHR ''a'' \<le> c \<and> c \<le> CHR ''z'') \<or> (CHR ''A'' \<le> c \<and> c \<le> CHR ''Z'')"

definition isalnum :: "char \<Rightarrow> bool" where
  "isalnum c \<longleftrightarrow> is_alpha c \<or> is_digit c"



section \<open>The regular expressions of the source\<close>

text \<open>
  Every pattern of the source is a concatenation of literals and of single character
  classes under \<open>+\<close>, \<open>*\<close> or \<open>+?\<close>, with capture groups around some of them.
  \<open>rmatch\<close> is Python's backtracking matcher on that fragment, anchored at the head of
  the string: a greedy class tries the longest run first, a lazy one the shortest, and
  the first alternative under which the rest of the pattern matches wins. It returns the
  unmatched rest of the string and, for every \<open>Mark\<close> passed, the suffix of the string
  at that point (a group is the text between its two marks).
\<close>

datatype item =
    Lit string
  | One "char \<Rightarrow> bool"
  | Plus "char \<Rightarrow> bool"
  | Star "char \<Rightarrow> bool"
  | LazyPlus "char \<Rightarrow> bool"
  | Mark

type_synonym regex = "item list"

fun rmatch :: "regex \<Rightarrow> string \<Rightarrow> (string list \<times> string) option" where
  "rmatch [] s = Some ([], s)"
| "rmatch (Lit l # r) s =
     (if startswith s l then rmatch r (drop (length l) s) else None)"
| "rmatch (One p # r) [] = None"
| "rmatch (One p # r) (c # cs) = (if p c then rmatch r cs else None)"
| "rmatch (Mark # r) s =
     (case rmatch r s of None \<Rightarrow> None | Some (ms, rest) \<Rightarrow> Some (s # ms, rest))"
| "rmatch (Plus p # r) [] = None"
| "rmatch (Plus p # r) (c # cs) =
     (if p c then rmatch (Star p # r) cs else None)"
| "rmatch (Star p # r) [] = rmatch r []"
| "rmatch (Star p # r) (c # cs) =
     (if p c then (case rmatch (Star p # r) cs of
                     Some m \<Rightarrow> Some m
                   | None \<Rightarrow> rmatch r (c # cs))
      else rmatch r (c # cs))"
| "rmatch (LazyPlus p # r) [] = None"
| "rmatch (LazyPlus p # r) (c # cs) =
     (if p c then (case rmatch r cs of
                     Some m \<Rightarrow> Some m
                   | None \<Rightarrow> rmatch (LazyPlus p # r) cs)
      else None)"

text \<open>Group \<open>k\<close> (counted from 1) of a match, from the suffixes at its two marks.\<close>

definition group :: "string list \<Rightarrow> nat \<Rightarrow> string" where
  "group ms k =
     (let a = ms ! (2 * k - 2); b = ms ! (2 * k - 1)
      in take (length a - length b) a)"

text \<open>\<open>re.search\<close>: the leftmost position at which the pattern matches. The result
  is the text before the match, the marks and the text after the match.\<close>

fun rsearch :: "regex \<Rightarrow> string \<Rightarrow> (string \<times> string list \<times> string) option" where
  "rsearch re [] =
     (case rmatch re [] of None \<Rightarrow> None | Some (ms, rest) \<Rightarrow> Some ([], ms, rest))"
| "rsearch re (c # cs) =
     (case rmatch re (c # cs) of
        Some (ms, rest) \<Rightarrow> Some ([], ms, rest)
      | None \<Rightarrow> (case rsearch re cs of
                   None \<Rightarrow> None
                 | Some (pre, ms, rest) \<Rightarrow> Some (c # pre, ms, rest)))"

text \<open>A replacement template: literal text and group references \<open>\1\<close>, \<open>\2\<close>, ...\<close>

datatype piece = Txt string | Grp nat

fun expand :: "piece list \<Rightarrow> string list \<Rightarrow> string" where
  "expand [] ms = []"
| "expand (Txt t # ps) ms = t @ expand ps ms"
| "expand (Grp k # ps) ms = group ms k @ expand ps ms"

text \<open>
  \<open>re.subn\<close>: every non-overlapping match, found from left to right, is replaced by
  the expanded template; the result is the new string and the number of replacements.
  No pattern of the source matches the empty string; the branch for an empty match
  (replace, copy one character, go on) is there to make the function total.
\<close>

function subn :: "regex \<Rightarrow> piece list \<Rightarrow> string \<Rightarrow> string \<times> nat" where
  "subn re repl s =
     (case rmatch re s of
        Some (ms, rest) \<Rightarrow>
          (if length rest < length s then
             (case subn re repl rest of (out, n) \<Rightarrow> (expand repl ms @ out, Suc n))
           else
             (case s of
                [] \<Rightarrow> (expand repl ms, 1)
              | c # cs \<Rightarrow> (case subn re repl cs of (out, n) \<Rightarrow> (expand repl ms @ c # out, Suc n))))
      | None \<Rightarrow>
          (case s of
             [] \<Rightarrow> ([], 0)
           | c # cs \<Rightarrow> (case subn re repl cs of (out, n) \<Rightarrow> (c # out, n))))"
  by pat_completeness auto
termination
  by (relation "measure (\<lambda>(re, repl, s). length s)") auto

declare subn.simps [simp del]

text \<open>The number of matches that \<open>re.subn\<close> finds: its count, whatever the template.\<close>

definition count_matches :: "regex \<Rightarrow> string \<Rightarrow> nat" where
  "count_matches re s = snd (subn re [] s)"

section \<open>Error reports and the outcome of a call\<close>

text \<open>
  \<open>_errorReport(text, fatal)\<close> prints one line to the error stream and, when
  \<open>fatal\<close> is set, ends the process with \<open>sys.exit(1)\<close>. A report is modelled by the
  condition it reports and its \<open>fatal\<close> flag; the outcome of a call is the value it
  returns with the reports printed on the way, the process exit after a fatal report,
  or a Python exception that nothing catches.
\<close>

datatype problem =
    UnreadableFile
  | VersionUndetermined
  | VersionUnsupported
  | ElementNotFound string
  | NoTitle
  | TargetsNotReplaced
  | SeveralObjectivesChanged
  | MinMaxNotSet
  | MinMaxChangedSeveralTimes
  | InvalidTargetType string
  | TargetTypeNotSet
  | SeveralTargetTypesChanged
  | MethodNotImplemented string
  | MethodNotChanged
  | MethodChangedSeveralTimes
  | TaskNotSet
  | TaskChangedSeveralTimes
  | FilenameNotChanged
  | FilenameChangedSeveralTimes
  | ItemNotChanged
  | ItemChangedSeveralTimes
  | ItemNotFound
  | ItemDeletedSeveralTimes
  | ParameterNotFound
  | ParameterFoundSeveralTimes

type_synonym report = "problem \<times> bool"

datatype pyexc = UnboundLocalError | KeyError | IndexError

datatype 'a outcome =
    Returns 'a "report list"
  | Exits "report list"
  | Raises pyexc "report list"

section \<open>Read accessors of the model document\<close>

subsection \<open>getTitle\<close>

definition name_re :: regex where
  "name_re = [Lit ''name=\"'', Mark, Plus (\<lambda>c. c \<noteq> quote), Mark, Lit ''\"'']"

text \<open>
  The loop of \<open>getTitle\<close> stops at the first line that contains \<open><Model \<close> and
  binds \<open>title\<close> there. When no line does, the loop ends with \<open>title\<close> unbound and
  \<open>return title\<close> raises \<open>UnboundLocalError\<close>.
\<close>

fun getTitle_loop :: "string list \<Rightarrow> string outcome" where
  "getTitle_loop [] = Raises UnboundLocalError []"
| "getTitle_loop (line # lines) =
     (if contains line ''<Model '' then
        (case rsearch name_re line of
           None \<Rightarrow> Returns ''!No title found!'' [(NoTitle, False)]
         | Some (pre, ms, rest) \<Rightarrow> Returns (group ms 1) [])
      else getTitle_loop lines)"

definition getTitle :: "string \<Rightarrow> string outcome" where
  "getTitle content = getTitle_loop (split_chr newline content)"

subsection \<open>Loading a document: the constructor, getVersion, checkVersion\<close>

record copasi =
  filename :: string
  content :: string
  version :: "string option"

definition testedVersions :: "string list" where
  "testedVersions = [''4.14 (Build 89)'', ''4.15 (Build 95)'']"

text \<open>The dots of \<open>www.copasi.org\<close> are not escaped in the pattern: each stands for any
  character except a newline.\<close>

definition version_re :: regex where
  "version_re =
     [Lit ''<!-- generated with COPASI '', Mark,
      Plus (\<lambda>c. is_digit c \<or> c = CHR ''.''), Lit '' (Build '', Plus is_digit, Lit '')'',
      Mark, Lit '' (http://www'', One notnl, Lit ''copasi'', One notnl, Lit ''org)'']"

text \<open>
  \<open>getVersion\<close> catches the \<open>AttributeError\<close> of a failed search, reports it with
  the default \<open>fatal = False\<close> and returns \<open>None\<close>.
\<close>

definition getVersion :: "string \<Rightarrow> string option outcome" where
  "getVersion cont =
     (case rsearch version_re cont of
        None \<Rightarrow> Returns None [(VersionUndetermined, False)]
      | Some (pre, ms, rest) \<Rightarrow> Returns (Some (group ms 1)) [])"

definition checkVersion :: "string option \<Rightarrow> bool" where
  "checkVersion v = (case v of None \<Rightarrow> False | Some t \<Rightarrow> t \<in> set testedVersions)"

definition endswith :: "string \<Rightarrow> string \<Rightarrow> bool" where
  "endswith s p \<longleftrightarrow> startswith (rev s) (rev p)"

text \<open>
  The constructor. \<open>file\<close> is what reading the named file gives: its text, or
  \<open>None\<close> for the \<open>OSError\<close> that \<open>openCopasiFile\<close> reports as fatal.
\<close>

definition Copasi_init :: "string \<Rightarrow> string option \<Rightarrow> copasi outcome" where
  "Copasi_init fname file =
     (let fname' = (if endswith fname ''.cps'' then fname else fname @ ''.cps'')
      in case file of
           None \<Rightarrow> Exits [(UnreadableFile, True)]
         | Some cont \<Rightarrow>
             (case getVersion cont of
                Returns v log \<Rightarrow>
                  Returns \<lparr>filename = fname', content = cont, version = v\<rparr>
                    (if checkVersion v then log else log @ [(VersionUnsupported, False)])
              | Exits log \<Rightarrow> Exits log
              | Raises e log \<Rightarrow> Raises e log))"

subsection \<open>turnToNumbers\<close>









subsection \<open>Dictionaries\<close>

text \<open>A Python \<open>dict\<close> is an association list in insertion order; assigning to a
  key that is present overwrites its value in place.\<close>

fun dict_set :: "'k \<Rightarrow> 'v \<Rightarrow> ('k \<times> 'v) list \<Rightarrow> ('k \<times> 'v) list" where
  "dict_set k v [] = [(k, v)]"
| "dict_set k v ((k', v') # d) =
     (if k' = k then (k, v) # d else (k', v') # dict_set k v d)"

subsection \<open>getCompartments and getMetabolites\<close>

definition compartment_re :: regex where
  \<open>compartment_re =
     [Lit ''key="'', Mark, Lit ''Compartment_'', Plus is_digit, Mark,
      Lit ''" name="'', Mark, Plus (\<lambda>c. c \<noteq> quote), Mark, Lit ''"'']\<close>

fun getCompartments_loop :: "string list \<Rightarrow> (string \<times> string) list \<Rightarrow> (string \<times> string) list" where
  "getCompartments_loop [] compartments = compartments"
| "getCompartments_loop (line # lines) compartments =
     (if contains line ''<Compartment'' then
        (case rsearch compartment_re line of
           None \<Rightarrow> getCompartments_loop lines compartments
         | Some (pre, ms, rest) \<Rightarrow>
             getCompartments_loop lines (dict_set (group ms 1) (group ms 2) compartments))
      else getCompartments_loop lines compartments)"

definition getCompartments :: "string \<Rightarrow> (string \<times> string) list" where
  "getCompartments cont = getCompartments_loop (split_chr newline cont) []"

definition metabolite_re :: regex where
  \<open>metabolite_re =
     [Lit ''key="Metabolite_'', Mark, Plus is_digit, Mark,
      Lit ''" name="'', Mark, Plus (\<lambda>c. c \<noteq> quote), Mark,
      Lit ''" simulationType="reactions" compartment="'',
      Mark, Lit ''Compartment_'', Plus is_digit, Mark, Lit ''"'']\<close>

definition statevar_re :: regex where
  \<open>statevar_re = [Lit ''objectReference="Metabolite_'', Mark, Plus is_digit, Mark, Lit ''"'']\<close>

text \<open>
  One pass over the lines: a \<open><Metabolite\<close> line that matches stores its name in
  \<open>metaBuffer\<close>, a \<open><StateTemplateVariable\<close> line looks its key up in
  \<open>metaBuffer\<close> as it is at that line. \<open>compartments[...]\<close> raises \<open>KeyError\<close>
  for a compartment key that \<open>getCompartments\<close> did not find.
\<close>

fun getMetabolites_loop ::
  "bool \<Rightarrow> (string \<times> string) list \<Rightarrow> string list \<Rightarrow> (string \<times> string) list \<Rightarrow> string list
     \<Rightarrow> string list outcome" where
  "getMetabolites_loop appendComp compartments [] metaBuffer metabolites = Returns metabolites []"
| "getMetabolites_loop appendComp compartments (line # lines) metaBuffer metabolites =
     (if contains line ''<Metabolite'' then
        (case rsearch metabolite_re line of
           None \<Rightarrow> getMetabolites_loop appendComp compartments lines metaBuffer metabolites
         | Some (pre, ms, rest) \<Rightarrow>
             if appendComp then
               (case map_of compartments (group ms 3) of
                  None \<Rightarrow> Raises KeyError []
                | Some cname \<Rightarrow>
                    getMetabolites_loop appendComp compartments lines
                      (dict_set (group ms 1) (group ms 2 @ ''_'' @ cname) metaBuffer) metabolites)
             else
               getMetabolites_loop appendComp compartments lines
                 (dict_set (group ms 1) (group ms 2) metaBuffer) metabolites)
      else if contains line ''<StateTemplateVariable'' then
        (case rsearch statevar_re line of
           None \<Rightarrow> getMetabolites_loop appendComp compartments lines metaBuffer metabolites
         | Some (pre, ms, rest) \<Rightarrow>
             (case map_of metaBuffer (group ms 1) of
                None \<Rightarrow> getMetabolites_loop appendComp compartments lines metaBuffer metabolites
              | Some nm \<Rightarrow>
                  getMetabolites_loop appendComp compartments lines metaBuffer (metabolites @ [nm])))
      else getMetabolites_loop appendComp compartments lines metaBuffer metabolites)"

definition getMetabolites :: "string \<Rightarrow> string list outcome" where
  "getMetabolites cont =
     (let compartments = getCompartments cont;
          appendComp = (length compartments > 1)
      in getMetabolites_loop appendComp compartments (split_chr newline cont) [] [])"

section \<open>Mutators of the model document\<close>

text \<open>
  Every mutator calls \<open>re.subn\<close> on the whole content, looks at the number of
  replacements, reports, and then stores the new content. The model takes the content
  and returns the new content.
\<close>

definition getValidFilename :: "string \<Rightarrow> string" where
  "getValidFilename fname = filter (\<lambda>c. isalnum c \<or> c \<in> set ''._/'') fname"




subsection \<open>setMCAOptiParameters\<close>



subsection \<open>setOptiMinMax\<close>



subsection \<open>setOptimizationTargetType\<close>




subsection \<open>setOptimizationMethod\<close>





subsection \<open>setTaskToMCA\<close>



subsection \<open>setReportFileName\<close>

definition target_re :: regex where
  \<open>target_re = [Lit ''target="'', Plus (\<lambda>c. c \<noteq> quote), Lit ''"'']\<close>

definition setReportFileName :: "string \<Rightarrow> bool \<Rightarrow> string \<Rightarrow> string outcome" where
  \<open>setReportFileName reportFile warn cont =
     (let reportFile' = getValidFilename reportFile;
          reBuffer = subn target_re [Txt (''target="'' @ reportFile' @ ''"'')] cont
      in if snd reBuffer = 0 then Exits [(FilenameNotChanged, True)]
         else if snd reBuffer > 1 \<and> warn then Returns (fst reBuffer) [(FilenameChangedSeveralTimes, False)]
         else Returns (fst reBuffer) [])\<close>



text \<open>The fixed head of the pattern and the template of \<open>setReportFileName\<close> for a
  sanitized name \<open>w\<close>.\<close>

definition target_lit :: string where
  \<open>target_lit = ''target="''\<close>

definition target_repl :: "string \<Rightarrow> piece list" where
  "target_repl w = [Txt (target_lit @ w @ [quote])]"

subsection \<open>Arguments spliced into a pattern or a template\<close>

text \<open>
  \<open>setOptimizationItem\<close>, \<open>delOptimizationItem\<close> and \<open>setParameter\<close> build the
  search pattern and the replacement template by concatenating their arguments,
  unescaped, with fixed text. \<open>re\<close> reads an argument spliced into a pattern as plain
  text when it has none of the special characters \<open>. ^ $ * + ? { } [ ] | ( )\<close> and no
  backslash, and an argument spliced into a template when it has no backslash. These are
  the arguments the model covers. For any other argument the pattern, the template and the result of the
  mutator are \<open>None\<close>: the model does not say what \<open>re\<close> makes of it (another
  pattern, other group numbers, or \<open>re.error\<close>).
\<close>

definition backslash :: char where
  "backslash = CHR 0x5C"

definition specials :: string where
  "specials = ''.^$*+?{}[]|()'' @ [backslash]"

definition plain :: "string \<Rightarrow> bool" where
  "plain s \<longleftrightarrow> list_all (\<lambda>c. c \<notin> set specials) s"


definition no_escape :: "string \<Rightarrow> bool" where
  "no_escape s \<longleftrightarrow> backslash \<notin> set s"


subsection \<open>setOptimizationItem\<close>




subsection \<open>delOptimizationItem\<close>




subsection \<open>setParameter\<close>

definition parameter_re :: "string \<Rightarrow> string \<Rightarrow> regex option" where
  \<open>parameter_re reaction parameter =
     (if plain reaction \<and> plain parameter then
        Some [Lit (''Reactions['' @ reaction @ ''],ParameterGroup=''), Mark, Plus (\<lambda>c. c \<noteq> CHR '',''), Mark,
              Lit ('',Parameter='' @ parameter @ ''" value="''), Plus (\<lambda>c. c \<noteq> quote), Lit ''"'']
      else None)\<close>

text \<open>\<open>val\<close> is \<open>str(value)\<close>.\<close>

definition parameter_repl :: "string \<Rightarrow> string \<Rightarrow> string \<Rightarrow> piece list option" where
  \<open>parameter_repl reaction parameter val =
     (if no_escape reaction \<and> no_escape parameter \<and> no_escape val then
        Some [Txt (''Reactions['' @ reaction @ ''],ParameterGroup=''), Grp 1,
              Txt ('',Parameter='' @ parameter @ ''" value="'' @ val @ ''"'')]
      else None)\<close>

definition setParameter :: "string \<Rightarrow> string \<Rightarrow> string \<Rightarrow> string \<Rightarrow> string outcome option" where
  "setParameter reaction parameter val cont =
     (case parameter_re reaction parameter of
        None \<Rightarrow> None
      | Some toSearch \<Rightarrow>
          (case parameter_repl reaction parameter val of
             None \<Rightarrow> None
           | Some toReplace \<Rightarrow>
               Some (let reBuffer = subn toSearch toReplace cont
                     in if snd reBuffer = 0 then Returns (fst reBuffer) [(ParameterNotFound, False)]
                        else if snd reBuffer > 1 then Returns (fst reBuffer) [(ParameterFoundSeveralTimes, False)]
                        else Returns (fst reBuffer) [])))"

section \<open>The result aggregator (extractFluxConcFromResults.py)\<close>













section \<open>The sweep summarizer (extractMCAOptimizationResults.py)\<close>








section \<open>What the specification says, for comparison\<close>

subsection \<open>The two-pass ordering of the metabolites\<close>

text \<open>
  The ordering algorithm as the specification words it. A declaration is a
  \<open><Metabolite\<close> line with the dynamic flag: its key, its name and the key of its
  compartment. A reference is a \<open><StateTemplateVariable\<close> line that names a
  metabolite key.
\<close>

definition dynamic_decl :: "string \<Rightarrow> (string \<times> string \<times> string) option" where
  "dynamic_decl line =
     (if contains line ''<Metabolite'' then
        (case rsearch metabolite_re line of
           None \<Rightarrow> None
         | Some (pre, ms, rest) \<Rightarrow> Some (group ms 1, group ms 2, group ms 3))
      else None)"

definition state_ref :: "string \<Rightarrow> string option" where
  "state_ref line =
     (if \<not> contains line ''<Metabolite'' \<and> contains line ''<StateTemplateVariable'' then
        (case rsearch statevar_re line of
           None \<Rightarrow> None
         | Some (pre, ms, rest) \<Rightarrow> Some (group ms 1))
      else None)"

text \<open>The display name: the raw name, with the suffix \<open>_<compartmentName>\<close> when more
  than one compartment exists. There is none for a compartment that is not declared.\<close>

definition display_name :: "(string \<times> string) list \<Rightarrow> string \<Rightarrow> string \<Rightarrow> string option" where
  "display_name compartments name ckey =
     (if length compartments > 1 then
        (case map_of compartments ckey of
           None \<Rightarrow> None
         | Some cname \<Rightarrow> Some (name @ ''_'' @ cname))
      else Some name)"

text \<open>Pass 1: the map from the key of every dynamic metabolite to its display name.\<close>

fun pass1 :: "(string \<times> string) list \<Rightarrow> string list \<Rightarrow> (string \<rightharpoonup> string) \<Rightarrow> (string \<rightharpoonup> string)" where
  "pass1 compartments [] m = m"
| "pass1 compartments (line # lines) m =
     (case dynamic_decl line of
        None \<Rightarrow> pass1 compartments lines m
      | Some (k, name, ckey) \<Rightarrow>
          (case display_name compartments name ckey of
             None \<Rightarrow> pass1 compartments lines m
           | Some d \<Rightarrow> pass1 compartments lines (m(k \<mapsto> d))))"

text \<open>Pass 2: for each reference, in order, that is found in the map of pass 1, its
  display name; a reference that resolves to nothing is skipped.\<close>

fun pass2 :: "(string \<rightharpoonup> string) \<Rightarrow> string list \<Rightarrow> string list" where
  "pass2 m [] = []"
| "pass2 m (line # lines) =
     (case state_ref line of
        None \<Rightarrow> pass2 m lines
      | Some k \<Rightarrow> (case m k of None \<Rightarrow> pass2 m lines | Some d \<Rightarrow> d # pass2 m lines))"

definition two_pass_metabolites :: "string \<Rightarrow> string list" where
  "two_pass_metabolites cont =
     (let lines = split_chr newline cont
      in pass2 (pass1 (getCompartments cont) lines Map.empty) lines)"

subsection \<open>The aggregated tables\<close>




subsection \<open>The sweep summaries\<close>






section \<open>Auxiliary definitions for the proofs\<close>

subsection \<open>The assignments of the aggregator loop\<close>







subsection \<open>The lists of the summarizer\<close>



section \<open>Sample documents\<close>


text \<open>A document whose only reference stands before the declaration, and one in the
  usual order.\<close>

definition refs_first :: string where
  \<open>refs_first =
     ''<StateTemplateVariable objectReference="Metabolite_1"/>'' @ [newline]
     @ ''<Metabolite key="Metabolite_1" name="A" simulationType="reactions" compartment="Compartment_0">''\<close>

definition decls_first :: string where
  \<open>decls_first =
     ''<Compartment key="Compartment_0" name="cyt">'' @ [newline]
     @ ''<Compartment key="Compartment_1" name="mito">'' @ [newline]
     @ ''<Metabolite key="Metabolite_5" name="NAD" simulationType="reactions" compartment="Compartment_0">'' @ [newline]
     @ ''<Metabolite key="Metabolite_3" name="ATP" simulationType="reactions" compartment="Compartment_1">'' @ [newline]
     @ ''<Metabolite key="Metabolite_4" name="X" simulationType="fixed" compartment="Compartment_1">'' @ [newline]
     @ ''<StateTemplateVariable objectReference="Metabolite_3"/>'' @ [newline]
     @ ''<StateTemplateVariable objectReference="Metabolite_4"/>'' @ [newline]
     @ ''<StateTemplateVariable objectReference="Metabolite_5"/>''\<close>



section \<open>Properties\<close>

subsection \<open>Counting matches\<close>

lemma subn_count_repl: "snd (subn re repl s) = snd (subn re repl' s)"
proof (induction re repl s rule: subn.induct)
  case (1 re repl s)
  show ?case
    using 1
    by (simp only: subn.simps[of re repl s] subn.simps[of re repl' s])
       (auto split: option.splits list.splits prod.splits)
qed

lemma subn_count: "snd (subn re repl s) = count_matches re s"
  unfolding count_matches_def by (rule subn_count_repl)


subsection \<open>Dictionaries and sorted keys\<close>

lemma map_of_dict_set: "map_of (dict_set k v d) = (map_of d)(k \<mapsto> v)"
  by (induction d) (auto simp: fun_eq_iff)




subsection \<open>The pattern of setReportFileName\<close>

lemma startswith_iff: "startswith s p \<longleftrightarrow> (\<exists>t. s = p @ t)"
proof
  assume "startswith s p"
  then have "s = p @ drop (length p) s"
    unfolding startswith_def by (metis append_take_drop_id)
  then show "\<exists>t. s = p @ t" ..
next
  assume "\<exists>t. s = p @ t"
  then show "startswith s p" unfolding startswith_def by auto
qed

lemma dropWhile_nq:
  "quote \<notin> set v \<Longrightarrow> dropWhile (\<lambda>c. c \<noteq> quote) (v @ quote # rest) = quote # rest"
  by (induction v) auto

lemma takeWhile_nq:
  "quote \<notin> set v \<Longrightarrow> takeWhile (\<lambda>c. c \<noteq> quote) (v @ quote # rest) = v"
  by (induction v) auto

lemma star_quote:
  "rmatch [Star (\<lambda>c. c \<noteq> quote), Lit [quote]] s =
     (case dropWhile (\<lambda>c. c \<noteq> quote) s of [] \<Rightarrow> None | c # t \<Rightarrow> Some ([], t))"
  by (induction s) (auto simp: startswith_def split: list.splits)

lemma dropWhile_hd_quote: "dropWhile (\<lambda>c. c \<noteq> quote) cs = x # xs \<Longrightarrow> x = quote"
  using hd_dropWhile[of "\<lambda>c. c \<noteq> quote" cs] by auto

lemma dropWhile_quote_iff:
  "(dropWhile (\<lambda>c. c \<noteq> quote) cs = quote # rest) \<longleftrightarrow>
          (\<exists>v'. quote \<notin> set v' \<and> cs = v' @ quote # rest)"
proof
  assume d: "dropWhile (\<lambda>c. c \<noteq> quote) cs = quote # rest"
  have "cs = takeWhile (\<lambda>c. c \<noteq> quote) cs @ dropWhile (\<lambda>c. c \<noteq> quote) cs" by simp
  with d have "cs = takeWhile (\<lambda>c. c \<noteq> quote) cs @ quote # rest" by simp
  moreover have "quote \<notin> set (takeWhile (\<lambda>c. c \<noteq> quote) cs)"
    using set_takeWhileD[of quote "\<lambda>c. c \<noteq> quote" cs] by blast
  ultimately show "\<exists>v'. quote \<notin> set v' \<and> cs = v' @ quote # rest" by blast
next
  assume "\<exists>v'. quote \<notin> set v' \<and> cs = v' @ quote # rest"
  then obtain v' where "quote \<notin> set v'" "cs = v' @ quote # rest" by blast
  then show "dropWhile (\<lambda>c. c \<noteq> quote) cs = quote # rest"
    by (simp add: dropWhile_nq)
qed

lemma plus_quote:
  "rmatch [Plus (\<lambda>c. c \<noteq> quote), Lit [quote]] t = Some (ms, rest) \<longleftrightarrow>
     ms = [] \<and> (\<exists>v. v \<noteq> [] \<and> quote \<notin> set v \<and> t = v @ quote # rest)"
proof (cases t)
  case Nil
  then show ?thesis by simp
next
  case (Cons c cs)
  show ?thesis
  proof (cases "c = quote")
    case True
    have "\<not> (\<exists>v. v \<noteq> [] \<and> quote \<notin> set v \<and> quote # cs = v @ quote # rest)"
      by (auto simp: Cons_eq_append_conv)
    with Cons True show ?thesis by simp
  next
    case False
    have l: "rmatch [Plus (\<lambda>c. c \<noteq> quote), Lit [quote]] t =
          (case dropWhile (\<lambda>c. c \<noteq> quote) cs of [] \<Rightarrow> None | c # t \<Rightarrow> Some ([], t))"
      using Cons False by (simp add: star_quote)
    have r: "(\<exists>v. v \<noteq> [] \<and> quote \<notin> set v \<and> t = v @ quote # rest) \<longleftrightarrow>
             (\<exists>v'. quote \<notin> set v' \<and> cs = v' @ quote # rest)"
    proof
      assume "\<exists>v. v \<noteq> [] \<and> quote \<notin> set v \<and> t = v @ quote # rest"
      then obtain v where v: "v \<noteq> []" "quote \<notin> set v" "t = v @ quote # rest" by blast
      then obtain a v' where "v = a # v'" by (cases v) auto
      with v Cons have "quote \<notin> set v' \<and> cs = v' @ quote # rest" by simp
      then show "\<exists>v'. quote \<notin> set v' \<and> cs = v' @ quote # rest" ..
    next
      assume "\<exists>v'. quote \<notin> set v' \<and> cs = v' @ quote # rest"
      then obtain v' where "quote \<notin> set v'" "cs = v' @ quote # rest" by blast
      with Cons False have "c # v' \<noteq> [] \<and> quote \<notin> set (c # v') \<and> t = (c # v') @ quote # rest"
        by simp
      then show "\<exists>v. v \<noteq> [] \<and> quote \<notin> set v \<and> t = v @ quote # rest" by blast
    qed
    show ?thesis
    proof (cases "dropWhile (\<lambda>c. c \<noteq> quote) cs")
      case Nil
      have "dropWhile (\<lambda>c. c \<noteq> quote) cs \<noteq> quote # rest"
        unfolding Nil by simp
      then have "\<not> (\<exists>v'. quote \<notin> set v' \<and> cs = v' @ quote # rest)"
        using dropWhile_quote_iff[of cs rest] by blast
      with l r Nil show ?thesis by simp
    next
      case (Cons x xs)
      then have x: "x = quote" by (rule dropWhile_hd_quote)
      have "(xs = rest) \<longleftrightarrow> (\<exists>v'. quote \<notin> set v' \<and> cs = v' @ quote # rest)"
        using dropWhile_quote_iff[of cs rest] Cons x by simp
      with l r Cons show ?thesis by auto
    qed
  qed
qed



lemma target_match:
  "rmatch target_re s = Some (ms, rest) \<longleftrightarrow>
     ms = [] \<and> (\<exists>v. v \<noteq> [] \<and> quote \<notin> set v \<and> s = target_lit @ v @ quote # rest)"
proof -
  have q: \<open>''"'' = [quote]\<close> by (simp add: quote_def)
  have e: "rmatch target_re s =
        (if startswith s target_lit then rmatch [Plus (\<lambda>c. c \<noteq> quote), Lit [quote]] (drop (length target_lit) s) else None)"
    unfolding target_re_def target_lit_def q by (simp only: rmatch.simps)
  show ?thesis
  proof (cases "startswith s target_lit")
    case True
    then obtain t where s: "s = target_lit @ t" using startswith_iff by blast
    then have "rmatch target_re s = rmatch [Plus (\<lambda>c. c \<noteq> quote), Lit [quote]] t"
      using e True by simp
    then show ?thesis using plus_quote[of t ms rest] s by simp
  next
    case False
    then have "rmatch target_re s = None" using e by simp
    moreover have "\<not> (\<exists>v. s = target_lit @ v @ quote # rest)"
      using False startswith_iff by blast
    ultimately show ?thesis by simp
  qed
qed

lemma target_subn_Some:
  assumes "v \<noteq> []" "quote \<notin> set v"
  shows "subn target_re repl (target_lit @ v @ quote # rest) =
           (expand repl [] @ fst (subn target_re repl rest), Suc (snd (subn target_re repl rest)))"
proof -
  have "rmatch target_re (target_lit @ v @ quote # rest) = Some ([], rest)"
    using assms target_match[of "target_lit @ v @ quote # rest" "[]" rest] by blast
  then show ?thesis
    by (subst subn.simps) (simp add: split_def)
qed

lemma target_subn_None:
  assumes "rmatch target_re (c # cs) = None"
  shows "subn target_re repl (c # cs) = (c # fst (subn target_re repl cs), snd (subn target_re repl cs))"
  using assms by (subst subn.simps) (simp add: split_def)

lemma target_subn_Nil: "subn target_re repl [] = ([], 0)"
  by (subst subn.simps) (simp add: target_re_def startswith_def)

lemma target_cases:
  obtains (hit) v rest where "v \<noteq> []" "quote \<notin> set v" "s = target_lit @ v @ quote # rest"
  | (miss) "rmatch target_re s = None"
proof (cases "rmatch target_re s")
  case None then show ?thesis by (rule miss)
next
  case (Some a)
  then obtain ms rest where "rmatch target_re s = Some (ms, rest)" by (cases a) auto
  then have "ms = [] \<and> (\<exists>v. v \<noteq> [] \<and> quote \<notin> set v \<and> s = target_lit @ v @ quote # rest)"
    by (simp only: target_match)
  then show ?thesis using hit by blast
qed


lemma expand_target_repl [simp]: "expand (target_repl w) ms = target_lit @ w @ [quote]"
  by (simp add: target_repl_def)

lemma target_lit_takeWhile [simp]: "takeWhile (\<lambda>c. c \<noteq> quote) (target_lit @ t) = ''target=''"
  by (simp add: target_lit_def quote_def)

lemma target_lit_quote [simp]: "quote \<in> set (target_lit @ t)"
  by (simp add: target_lit_def quote_def)

text \<open>A substitution changes nothing up to the first quote of the document.\<close>
lemma sub_takeWhile:
  "takeWhile (\<lambda>c. c \<noteq> quote) (fst (subn target_re (target_repl w) s)) = takeWhile (\<lambda>c. c \<noteq> quote) s
   \<and> (quote \<in> set (fst (subn target_re (target_repl w) s)) \<longleftrightarrow> quote \<in> set s)"
proof (induction s rule: length_induct)
  case (1 s)
  show ?case
  proof (cases s rule: target_cases)
    case (hit v rest)
    then show ?thesis by (simp add: target_subn_Some)
  next
    case miss
    show ?thesis
    proof (cases s)
      case Nil
      then show ?thesis by (simp add: target_subn_Nil)
    next
      case (Cons c cs)
      with 1 have "takeWhile (\<lambda>c. c \<noteq> quote) (fst (subn target_re (target_repl w) cs)) = takeWhile (\<lambda>c. c \<noteq> quote) cs
   \<and> (quote \<in> set (fst (subn target_re (target_repl w) cs)) \<longleftrightarrow> quote \<in> set cs)" by simp
      with miss Cons show ?thesis by (simp add: target_subn_None)
    qed
  qed
qed

lemma miss_no_prefix:
  assumes "\<not> startswith s target_lit"
  shows "rmatch target_re s = None"
proof (cases s rule: target_cases)
  case (hit v rest)
  with assms show ?thesis by (simp add: startswith_iff)
next
  case miss then show ?thesis .
qed

text \<open>Where the head of the pattern is not followed by a value, the scan passes over it.\<close>
lemma sub_skip_lit:
  assumes "rmatch target_re (target_lit @ t) = None"
  shows "subn target_re repl (target_lit @ t) = (target_lit @ fst (subn target_re repl t), snd (subn target_re repl t))"
proof -
  have n: "\<And>u. u \<in> {''arget='' @ quote # t, ''rget='' @ quote # t, ''get='' @ quote # t,
            ''et='' @ quote # t, ''t='' @ quote # t, ''='' @ quote # t, quote # t}
        \<Longrightarrow> rmatch target_re u = None"
    by (rule miss_no_prefix) (auto simp: startswith_def target_lit_def quote_def)
  have l: "target_lit @ t = CHR ''t'' # ''arget='' @ quote # t" by (simp add: target_lit_def quote_def)
  have "subn target_re repl (target_lit @ t) =
     (CHR ''t'' # fst (subn target_re repl (''arget='' @ quote # t)), snd (subn target_re repl (''arget='' @ quote # t)))"
    using assms unfolding l by (rule target_subn_None)
  then show ?thesis
    using n by (simp add: target_subn_None target_lit_def quote_def)
qed

text \<open>A position at which the pattern does not match still does not match after the
  substitution in the rest of the document.\<close>
lemma sub_miss_head:
  assumes m: "rmatch target_re s = None" and w: "quote \<notin> set w"
  shows "rmatch target_re (fst (subn target_re (target_repl w) s)) = None"
proof (cases "fst (subn target_re (target_repl w) s)" rule: target_cases)
  case miss then show ?thesis .
next
  case (hit v rest')
  let ?nq = "\<lambda>c. c \<noteq> quote"
  let ?sub = "\<lambda>x. fst (subn target_re (target_repl w) x)"
  from hit have "takeWhile ?nq (?sub s) = ''target=''" "quote \<in> set (?sub s)" by simp_all
  then have tw: "takeWhile ?nq s = ''target=''" and qs: "quote \<in> set s"
    using sub_takeWhile[of w s] by simp_all
  have "s = takeWhile ?nq s @ dropWhile ?nq s" by simp
  moreover from qs have "dropWhile ?nq s \<noteq> []" by auto
  then obtain x t where d: "dropWhile ?nq s = x # t" by (cases "dropWhile ?nq s") auto
  moreover from d have "x = quote" by (rule dropWhile_hd_quote)
  ultimately have "s = ''target='' @ quote # t" using tw by simp
  then have s: "s = target_lit @ t" by (simp add: target_lit_def quote_def)
  with m have "subn target_re (target_repl w) (target_lit @ t) = (target_lit @ ?sub t, snd (subn target_re (target_repl w) t))"
    by (simp add: sub_skip_lit)
  with hit s have st: "?sub t = v @ quote # rest'" by simp
  then have "takeWhile ?nq (?sub t) = v" "quote \<in> set (?sub t)"
    using hit by (simp_all add: takeWhile_nq)
  then have tw2: "takeWhile ?nq t = v" and qt: "quote \<in> set t"
    using sub_takeWhile[of w t] by simp_all
  have "t = takeWhile ?nq t @ dropWhile ?nq t" by simp
  moreover from qt have "dropWhile ?nq t \<noteq> []" by auto
  then obtain y t2 where d2: "dropWhile ?nq t = y # t2" by (cases "dropWhile ?nq t") auto
  moreover from d2 have "y = quote" by (rule dropWhile_hd_quote)
  ultimately have "t = v @ quote # t2" using tw2 by simp
  with s have "s = target_lit @ v @ quote # t2" by simp
  with hit have "rmatch target_re s = Some ([], t2)"
    using target_match[of s "[]" t2] by blast
  with m show ?thesis by simp
qed


text \<open>With the empty value no match is left.\<close>
lemma sub_empty_count:
  "snd (subn target_re repl (fst (subn target_re (target_repl []) s))) = 0"
proof (induction s rule: length_induct)
  case (1 s)
  let ?sub = "\<lambda>x. fst (subn target_re (target_repl []) x)"
  show ?case
  proof (cases s rule: target_cases)
    case (hit v rest)
    then have e: "?sub s = target_lit @ quote # ?sub rest"
      by (simp add: target_subn_Some)
    from hit 1 have ih: "snd (subn target_re repl (?sub rest)) = 0" by simp
    have "rmatch target_re (target_lit @ quote # ?sub rest) = None"
    proof (cases "target_lit @ quote # ?sub rest" rule: target_cases)
      case (hit v' r') then show ?thesis by (cases v') auto
    next
      case miss then show ?thesis .
    qed
    then have "subn target_re repl (target_lit @ quote # ?sub rest) =
       (target_lit @ fst (subn target_re repl (quote # ?sub rest)), snd (subn target_re repl (quote # ?sub rest)))"
      by (rule sub_skip_lit)
    moreover have "rmatch target_re (quote # ?sub rest) = None"
      by (rule miss_no_prefix) (simp add: startswith_def target_lit_def quote_def)
    ultimately show ?thesis using e ih by (simp add: target_subn_None)
  next
    case miss
    show ?thesis
    proof (cases s)
      case Nil
      then show ?thesis by (simp add: target_subn_Nil)
    next
      case (Cons c cs)
      with miss have e: "?sub s = c # ?sub cs"
        by (simp add: target_subn_None)
      from Cons 1 have ih: "snd (subn target_re repl (?sub cs)) = 0" by simp
      from sub_miss_head[OF miss, of "[]"] e have "rmatch target_re (c # ?sub cs) = None" by simp
      then have "subn target_re repl (c # ?sub cs) = (c # fst (subn target_re repl (?sub cs)), snd (subn target_re repl (?sub cs)))"
        by (rule target_subn_None)
      with e ih show ?thesis by simp
    qed
  qed
qed









lemma contains_prefix: "contains (p @ t) p"
proof (cases "p @ t")
  case Nil
  then show ?thesis by simp
next
  case (Cons a l)
  have "startswith (p @ t) p" by (simp add: startswith_def)
  then show ?thesis unfolding Cons by simp
qed

lemma contains_sub:
  "1 \<le> snd (subn target_re (target_repl w) s) \<Longrightarrow> contains (fst (subn target_re (target_repl w) s)) (target_lit @ w @ [quote])"
proof (induction s rule: length_induct)
  case (1 s)
  let ?sub = "\<lambda>x. fst (subn target_re (target_repl w) x)"
  show ?case
  proof (cases s rule: target_cases)
    case (hit v rest)
    then have "?sub s = (target_lit @ w @ [quote]) @ ?sub rest" by (simp add: target_subn_Some)
    then show ?thesis using contains_prefix[of "target_lit @ w @ [quote]" "?sub rest"] by simp
  next
    case miss
    show ?thesis
    proof (cases s)
      case Nil
      with 1(2) show ?thesis by (simp add: target_subn_Nil)
    next
      case (Cons c cs)
      with miss have e: "subn target_re (target_repl w) s = (c # ?sub cs, snd (subn target_re (target_repl w) cs))"
        by (simp add: target_subn_None)
      with 1(2) have "1 \<le> snd (subn target_re (target_repl w) cs)" by simp
      with 1(1) Cons have "contains (?sub cs) (target_lit @ w @ [quote])" by simp
      with e show ?thesis by simp
    qed
  qed
qed


lemma report_repl: \<open>[Txt (''target="'' @ w @ ''"'')] = target_repl w\<close>
  by (simp add: target_repl_def target_lit_def quote_def)

lemma setReportFileName_unfold:
  "setReportFileName reportFile warn cont =
     (let reBuffer = subn target_re (target_repl (getValidFilename reportFile)) cont
      in if snd reBuffer = 0 then Exits [(FilenameNotChanged, True)]
         else if snd reBuffer > 1 \<and> warn then Returns (fst reBuffer) [(FilenameChangedSeveralTimes, False)]
         else Returns (fst reBuffer) [])"
  unfolding setReportFileName_def report_repl by (simp add: Let_def)

subsection \<open>setReportFileName: round trip, idempotence and the empty name\<close>



text \<open>
  C10 (a name that is sanitized to the empty string): on a document with at least one
  match the call returns; the new content holds \<open>target=""\<close> and the pattern, which
  asks for a non-empty value, matches it nowhere; so every later call of
  \<open>setReportFileName\<close> on that content, whatever its arguments, ends in the fatal
  report.
\<close>

theorem setReportFileName_empty_name:
  assumes "getValidFilename name = []" and "1 \<le> count_matches target_re cont"
  shows "case setReportFileName name warn cont of
           Returns cont' log \<Rightarrow>
             contains cont' ''target=\"\"'' \<and> count_matches target_re cont' = 0 \<and>
             (\<forall>name' warn'. setReportFileName name' warn' cont' = Exits [(FilenameNotChanged, True)])
         | _ \<Rightarrow> False"
proof -
  let ?c = "fst (subn target_re (target_repl []) cont)"
  have n: "1 \<le> snd (subn target_re (target_repl []) cont)" using assms(2) by (simp add: subn_count)
  have z: "\<And>repl. snd (subn target_re repl ?c) = 0" by (rule sub_empty_count)
  have "contains ?c (target_lit @ [] @ [quote])" using n by (rule contains_sub)
  then have "contains ?c ''target=\"\"''" by (simp add: target_lit_def quote_def)
  moreover have "count_matches target_re ?c = 0" using z by (simp add: count_matches_def)
  moreover have "\<And>name' warn'. setReportFileName name' warn' ?c = Exits [(FilenameNotChanged, True)]"
    using z by (simp add: setReportFileName_unfold)
  moreover have "\<exists>log. setReportFileName name warn cont = Returns ?c log"
    using n assms(1) by (simp add: setReportFileName_unfold Let_def)
  ultimately show ?thesis by auto
qed

theorem setReportFileName_empty_name_witness:
  \<open>getValidFilename ''???'' = [] \<and> 1 \<le> count_matches target_re ''<Report target="a.txt"/>'' \<and>
   (case setReportFileName ''???'' False ''<Report target="a.txt"/>'' of
           Returns cont' log \<Rightarrow>
             contains cont' ''target=""'' \<and> count_matches target_re cont' = 0 \<and>
             (\<forall>name' warn'. setReportFileName name' warn' cont' = Exits [(FilenameNotChanged, True)])
         | _ \<Rightarrow> False)\<close>
proof -
  have h1: "getValidFilename ''???'' = []" by code_simp
  have h2: \<open>1 \<le> count_matches target_re ''<Report target="a.txt"/>''\<close> by code_simp
  from setReportFileName_empty_name[OF h1 h2] h1 h2 show ?thesis by blast
qed

subsection \<open>More than one match\<close>




subsection \<open>No match\<close>







text \<open>
  Arguments that \<open>re\<close> does not read as plain text are outside the model: a reaction
  name with a parenthesis, a value with a backslash.
\<close>

lemma setParameter_outside_model:
  "setParameter ''R(1)'' ''k1'' ''0.5'' cont = None \<and>
   setParameter ''R1'' ''k1'' [backslash, CHR ''9''] cont = None"
proof -
  have "parameter_re ''R(1)'' ''k1'' = None" by code_simp
  moreover have "parameter_repl ''R1'' ''k1'' [backslash, CHR ''9''] = None" by code_simp
  ultimately show ?thesis by (simp add: setParameter_def split: option.splits)
qed




subsection \<open>Loading a document without a version marker\<close>

text \<open>
  C6 (loading fails fatally when the version marker is absent): it does not. The
  constructor prints two reports, neither of them fatal, and returns the document with
  the version \<open>None\<close>.
\<close>

theorem load_without_version_marker:
  "rsearch version_re ''<COPASI/>'' = None \<and>
   Copasi_init ''m.cps'' (Some ''<COPASI/>'') =
     Returns \<lparr>filename = ''m.cps'', content = ''<COPASI/>'', version = None\<rparr>
       [(VersionUndetermined, False), (VersionUnsupported, False)]"
  by code_simp

text \<open>
  C6, amended: if the version marker is absent from a document that can be read,
  loading reports that the version could not be determined and that it is not
  supported, both without the fatal flag, and goes on with the version \<open>None\<close>.
\<close>

theorem load_continues_without_version:
  "rsearch version_re cont = None \<Longrightarrow>
   Copasi_init fname (Some cont) =
     Returns \<lparr>filename = (if endswith fname ''.cps'' then fname else fname @ ''.cps''),
              content = cont, version = None\<rparr>
       [(VersionUndetermined, False), (VersionUnsupported, False)]"
  by (simp add: Copasi_init_def getVersion_def checkVersion_def)

theorem load_continues_without_version_witness:
  "rsearch version_re ''<COPASI/>'' = None \<and>
   Copasi_init ''model'' (Some ''<COPASI/>'') =
     Returns \<lparr>filename = ''model.cps'', content = ''<COPASI/>'', version = None\<rparr>
       [(VersionUndetermined, False), (VersionUnsupported, False)]"
proof -
  have h: "rsearch version_re ''<COPASI/>'' = None" by code_simp
  have e: "(if endswith ''model'' ''.cps'' then ''model'' else ''model'' @ ''.cps'') = ''model.cps''"
    by code_simp
  from load_continues_without_version[OF h, of "''model''"] h e show ?thesis by simp
qed

subsection \<open>turnToNumbers\<close>





subsection \<open>getMetabolites\<close>

lemma loop_step:
  "getMetabolites_loop (1 < length comps) comps (l # ls) buf mets =
     (case dynamic_decl l of
        Some (k, n, c) \<Rightarrow>
          (case display_name comps n c of
             None \<Rightarrow> Raises KeyError []
           | Some d \<Rightarrow> getMetabolites_loop (1 < length comps) comps ls (dict_set k d buf) mets)
      | None \<Rightarrow>
          (case state_ref l of
             Some k \<Rightarrow>
               (case map_of buf k of
                  Some nm \<Rightarrow> getMetabolites_loop (1 < length comps) comps ls buf (mets @ [nm])
                | None \<Rightarrow> getMetabolites_loop (1 < length comps) comps ls buf mets)
           | None \<Rightarrow> getMetabolites_loop (1 < length comps) comps ls buf mets))"
  by (simp add: dynamic_decl_def state_ref_def display_name_def split: option.splits)

lemma loop_decls:
  assumes "\<forall>l\<in>set A. state_ref l = None"
    and "\<forall>l\<in>set A. \<forall>k n c. dynamic_decl l = Some (k, n, c) \<longrightarrow> display_name comps n c \<noteq> None"
  shows "\<exists>buf'. map_of buf' = pass1 comps A (map_of buf) \<and>
           getMetabolites_loop (1 < length comps) comps (A @ B) buf mets =
           getMetabolites_loop (1 < length comps) comps B buf' mets"
  using assms
proof (induction A arbitrary: buf)
  case Nil
  then show ?case by auto
next
  case (Cons l A)
  show ?case
  proof (cases "dynamic_decl l")
    case None
    from Cons.prems have s: "state_ref l = None" by simp
    from Cons.IH[of buf] Cons.prems obtain buf' where
      "map_of buf' = pass1 comps A (map_of buf)"
      "getMetabolites_loop (1 < length comps) comps (A @ B) buf mets =
           getMetabolites_loop (1 < length comps) comps B buf' mets" by auto
    with None s show ?thesis
      by (simp only: append_Cons loop_step pass1.simps option.case) blast
  next
    case (Some a)
    obtain k n c where a: "a = (k, n, c)" by (cases a) auto
    with Some Cons.prems obtain d where d: "display_name comps n c = Some d" by fastforce
    from Cons.IH[of "dict_set k d buf"] Cons.prems obtain buf' where
      "map_of buf' = pass1 comps A (map_of (dict_set k d buf))"
      "getMetabolites_loop (1 < length comps) comps (A @ B) (dict_set k d buf) mets =
           getMetabolites_loop (1 < length comps) comps B buf' mets" by auto
    with Some a d show ?thesis
      by (simp only: append_Cons loop_step pass1.simps option.case prod.case map_of_dict_set) blast
  qed
qed

lemma loop_refs:
  assumes "\<forall>l\<in>set B. dynamic_decl l = None"
  shows "getMetabolites_loop (1 < length comps) comps B buf mets =
           Returns (mets @ pass2 (map_of buf) B) []"
  using assms
proof (induction B arbitrary: mets)
  case Nil
  then show ?case by simp
next
  case (Cons l B)
  then have d: "dynamic_decl l = None" and ih: "\<And>mets. getMetabolites_loop (1 < length comps) comps B buf mets =
           Returns (mets @ pass2 (map_of buf) B) []" by simp_all
  show ?case
    by (simp only: loop_step d ih pass2.simps) (simp split: option.splits)
qed

lemma pass1_append: "pass1 comps (A @ B) m = pass1 comps B (pass1 comps A m)"
  by (induction A arbitrary: m) (auto split: option.splits)

lemma pass1_no_decl: "\<forall>l\<in>set B. dynamic_decl l = None \<Longrightarrow> pass1 comps B m = m"
  by (induction B arbitrary: m) auto

lemma pass2_no_ref: "\<forall>l\<in>set A. state_ref l = None \<Longrightarrow> pass2 m (A @ B) = pass2 m B"
  by (induction A) auto

text \<open>
  C4 (for every document \<open>getMetabolites\<close> returns the dynamic metabolites in the order
  of their references): a reference that stands before the declaration of its
  metabolite is lost, because the code looks a key up in the names collected so far.
\<close>

theorem getMetabolites_reference_before_declaration:
  "getMetabolites refs_first = Returns [] [] \<and> two_pass_metabolites refs_first = [''A'']"
  by code_simp

text \<open>
  C4, amended: for every document in which the declarations of the dynamic
  metabolites stand before the \<open>StateTemplateVariable\<close> references and, when more than
  one compartment is declared, the compartment of every dynamic metabolite is declared,
  \<open>getMetabolites\<close> returns what the two passes give: for each reference, in the order
  of the references, whose key is in the map of the dynamic metabolites, the display
  name of that metabolite, the other references being skipped; the display name has
  the suffix \<open>_<compartmentName>\<close> exactly when the document declares more than one
  compartment.
\<close>

theorem getMetabolites_two_pass:
  assumes "split_chr newline cont = decls @ refs"
    and "\<forall>l\<in>set decls. state_ref l = None"
    and "\<forall>l\<in>set refs. dynamic_decl l = None"
    and "\<forall>l\<in>set decls. \<forall>k n c. dynamic_decl l = Some (k, n, c) \<longrightarrow>
           display_name (getCompartments cont) n c \<noteq> None"
  shows "getMetabolites cont = Returns (two_pass_metabolites cont) []"
proof -
  let ?comps = "getCompartments cont"
  from loop_decls[OF assms(2) assms(4), of "[]" refs "[]"] obtain buf' where
    b: "map_of buf' = pass1 ?comps decls Map.empty"
    and l: "getMetabolites_loop (1 < length ?comps) ?comps (decls @ refs) [] [] =
            getMetabolites_loop (1 < length ?comps) ?comps refs buf' []" by auto
  have "getMetabolites cont = getMetabolites_loop (1 < length ?comps) ?comps (decls @ refs) [] []"
    by (simp add: getMetabolites_def assms(1) Let_def)
  also have "\<dots> = Returns (pass2 (pass1 ?comps decls Map.empty) refs) []"
    using l loop_refs[OF assms(3), of ?comps buf' "[]"] b by simp
  also have "pass2 (pass1 ?comps decls Map.empty) refs = two_pass_metabolites cont"
    using assms(2,3)
    by (simp add: two_pass_metabolites_def assms(1) Let_def pass1_append pass1_no_decl pass2_no_ref)
  finally show ?thesis .
qed

theorem getMetabolites_two_pass_witness:
  "getMetabolites decls_first = Returns [''ATP_mito'', ''NAD_cyt''] []"
proof -
  have h1: "split_chr newline decls_first = take 5 (split_chr newline decls_first) @ drop 5 (split_chr newline decls_first)"
    by simp
  have h2: "\<forall>l\<in>set (take 5 (split_chr newline decls_first)). state_ref l = None" by code_simp
  have h3: "\<forall>l\<in>set (drop 5 (split_chr newline decls_first)). dynamic_decl l = None" by code_simp
  have h4: "\<forall>l\<in>set (take 5 (split_chr newline decls_first)). \<forall>k n c. dynamic_decl l = Some (k, n, c) \<longrightarrow>
           display_name (getCompartments decls_first) n c \<noteq> None"
  proof -
    have "\<forall>l\<in>set (take 5 (split_chr newline decls_first)).
            (case dynamic_decl l of None \<Rightarrow> True
             | Some (k, n, c) \<Rightarrow> display_name (getCompartments decls_first) n c \<noteq> None)"
      by code_simp
    then show ?thesis by (auto split: option.splits)
  qed
  have e: "two_pass_metabolites decls_first = [''ATP_mito'', ''NAD_cyt'']" by code_simp
  from getMetabolites_two_pass[OF h1 h2 h3 h4] e show ?thesis by simp
qed

subsection \<open>The aggregated tables\<close>
























subsection \<open>The sweep summaries\<close>

lemma split_chr_not_Nil [simp]: "split_chr sep s \<noteq> []"
  by (induction s) (auto split: list.splits)







lemma startswith_Nil [simp]: "startswith s []"
  by (simp add: startswith_def)

lemma startswith_Nil_left: "startswith [] p \<longleftrightarrow> p = []"
  by (auto simp: startswith_def)















subsection \<open>getTitle\<close>

text \<open>
  C9 (the read accessor \<open>getTitle\<close> never fails and returns the placeholder when
  the title is absent): on a document with no \<open><Model \<close> line the code does not
  return. The loop never binds \<open>title\<close>, and \<open>return title\<close> raises
  \<open>UnboundLocalError\<close>.
\<close>

theorem getTitle_without_Model_line:
  "getTitle ''<COPASI>'' = Raises UnboundLocalError []"
  by (simp add: getTitle_def newline_def startswith_def)

end
